theory Spec2Isabelle
  imports Main "HOL-Library.Word"
begin

section \<open>JavaScript strings\<close>

text \<open>
  A JavaScript string is a sequence of 16-bit code units. The two scripts only join,
  split, trim and compare strings, so a list of code units is all that is needed.
  \<open>str\<close> writes an ASCII literal.
\<close>

type_synonym jsstring = "16 word list"

definition str :: "string \<Rightarrow> jsstring" where
  "str s = map of_char s"

definition newline :: "16 word" where
  "newline = 0x0A"

text \<open>\<^verbatim>\<open>Array.prototype.join(sep)\<close>, on the strings of the elements.\<close>

fun join :: "jsstring \<Rightarrow> jsstring list \<Rightarrow> jsstring" where
  "join sep [] = []"
| "join sep [x] = x"
| "join sep (x # y # ys) = x @ sep @ join sep (y # ys)"

text \<open>
  \<^verbatim>\<open>String.prototype.split(c)\<close> for a separator of one code unit: the empty string
  splits into one empty piece, and a trailing separator leaves an empty last piece.
\<close>

fun split :: "16 word \<Rightarrow> jsstring \<Rightarrow> jsstring list" where
  "split c [] = [[]]"
| "split c (x # xs) =
     (if x = c then [] # split c xs
      else (x # hd (split c xs)) # tl (split c xs))"

text \<open>
  The code units that \<^verbatim>\<open>String.prototype.trim\<close> strips: ECMAScript's WhiteSpace and
  LineTerminator code points, all of them in the basic plane.
\<close>

definition is_space :: "16 word \<Rightarrow> bool" where
  "is_space c \<longleftrightarrow>
     c = 0x09 \<or> c = 0x0A \<or> c = 0x0B \<or> c = 0x0C \<or> c = 0x0D \<or> c = 0x20 \<or>
     c = 0xA0 \<or> c = 0x1680 \<or> (0x2000 \<le> c \<and> c \<le> 0x200A) \<or>
     c = 0x2028 \<or> c = 0x2029 \<or> c = 0x202F \<or> c = 0x205F \<or> c = 0x3000 \<or>
     c = 0xFEFF"

definition trim :: "jsstring \<Rightarrow> jsstring" where
  "trim s = rev (dropWhile is_space (rev (dropWhile is_space s)))"

text \<open>\<^verbatim>\<open>s.includes('\n')\<close>.\<close>

definition includes_newline :: "jsstring \<Rightarrow> bool" where
  "includes_newline s \<longleftrightarrow> newline \<in> set s"

section \<open>Values and plain objects\<close>

text \<open>
  The values that a lookup in a plain object with string values can give, and that
  \<^verbatim>\<open>translateText\<close> can therefore return: \<^verbatim>\<open>undefined\<close>, a string, or the member of
  \<^verbatim>\<open>Object.prototype\<close> of a given name (a function, or for \<^verbatim>\<open>__proto__\<close> the prototype
  object itself).
\<close>

datatype jsvalue = Undefined | Text jsstring | Inherited jsstring

text \<open>The names that every plain object inherits from \<^verbatim>\<open>Object.prototype\<close>.\<close>

definition prototype_members :: "jsstring list" where
  "prototype_members =
     map str [''constructor'', ''__defineGetter__'', ''__defineSetter__'', ''hasOwnProperty'',
       ''__lookupGetter__'', ''__lookupSetter__'', ''isPrototypeOf'', ''propertyIsEnumerable'',
       ''toString'', ''valueOf'', ''__proto__'', ''toLocaleString'']"

text \<open>Truthiness: an empty string and \<^verbatim>\<open>undefined\<close> are falsy, functions and objects truthy.\<close>

fun truthy :: "jsvalue \<Rightarrow> bool" where
  "truthy Undefined = False"
| "truthy (Text s) = (s \<noteq> [])"
| "truthy (Inherited k) = True"

text \<open>
  The string that \<^verbatim>\<open>Array.prototype.join\<close> puts for an element: nothing for
  \<^verbatim>\<open>undefined\<close>, and for a member of \<^verbatim>\<open>Object.prototype\<close> what the engine prints for it,
  the source text of a native function (the function under \<^verbatim>\<open>constructor\<close> is named
  \<^verbatim>\<open>Object\<close>) or, for the prototype object, \<^verbatim>\<open>[object Object]\<close>.
\<close>

definition native_text :: "jsstring \<Rightarrow> jsstring" where
  "native_text k =
     (if k = str ''__proto__'' then str ''[object Object]''
      else str ''function '' @ (if k = str ''constructor'' then str ''Object'' else k) @
        str ''() { [native code] }'')"

fun to_text :: "jsvalue \<Rightarrow> jsstring" where
  "to_text Undefined = []"
| "to_text (Text s) = s"
| "to_text (Inherited k) = native_text k"

text \<open>
  The objects that the scripts use as dictionaries (the extraction output and the cache)
  are plain objects whose own properties hold strings: a map gives the own properties.
  A lookup \<^verbatim>\<open>obj[k]\<close> finds an own property first and an inherited member otherwise. An
  assignment \<^verbatim>\<open>obj[k] = v\<close> writes an own property, except under \<^verbatim>\<open>__proto__\<close> when the
  object has no own property of that name: the inherited setter is called, and it ignores
  a string.
\<close>

type_synonym mapping = "jsstring \<rightharpoonup> jsstring"

definition get_property :: "mapping \<Rightarrow> jsstring \<Rightarrow> jsvalue" where
  "get_property obj k =
     (case obj k of
        Some s \<Rightarrow> Text s
      | None \<Rightarrow> (if k \<in> set prototype_members then Inherited k else Undefined))"

definition set_property :: "mapping \<Rightarrow> jsstring \<Rightarrow> jsstring \<Rightarrow> mapping" where
  "set_property obj k v =
     (if k = str ''__proto__'' \<and> obj k = None then obj else obj(k \<mapsto> v))"

section \<open>The parsed catalog\<close>

text \<open>
  The parser hands back, per context, an object from source identifier to entry. The
  scripts read two fields of an entry and test whether each is an array, so a field is
  either one string or an array, and \<open>msgstr\<close> may be missing. The parser fills arrays
  with strings; the fill workflow stores what \<^verbatim>\<open>translateText\<close> returned. An object is
  listed in the order in which \<^verbatim>\<open>Object.entries\<close> enumerates it.
\<close>

datatype field = Str jsstring | Arr "jsvalue list"

record entry =
  msgid :: field
  msgstr :: "field option"

type_synonym po_context = "(jsstring \<times> entry) list"
type_synonym catalog = "(jsstring \<times> po_context) list"

section \<open>Extraction\<close>

text \<open>The value of the local \<^verbatim>\<open>english\<close> of \<^verbatim>\<open>extractTranslations\<close>.\<close>

definition english :: "entry \<Rightarrow> jsstring" where
  "english t = (case msgid t of Arr ls \<Rightarrow> join [newline] (map to_text ls) | Str s \<Rightarrow> s)"

text \<open>
  The value of the local \<^verbatim>\<open>chinese\<close>: the empty string when \<open>msgstr\<close> is missing,
  falsy or of length 0.
\<close>

definition chinese :: "entry \<Rightarrow> jsstring" where
  "chinese t =
     (case msgstr t of
        None \<Rightarrow> []
      | Some (Arr ls) \<Rightarrow> (if length ls > 0 then join [newline] (map to_text ls) else [])
      | Some (Str s) \<Rightarrow> (if s \<noteq> [] \<and> length s > 0 then s else []))"

text \<open>
  The body of the inner loop of \<^verbatim>\<open>extractTranslations\<close>, for the entry under key \<open>k\<close>:
  the header is skipped, and a pair is stored only when both strings are truthy.
\<close>

definition extract_entry :: "jsstring \<times> entry \<Rightarrow> mapping \<Rightarrow> mapping" where
  "extract_entry kt translations =
     (case kt of (k, t) \<Rightarrow>
        if k = [] then translations
        else if english t \<noteq> [] \<and> chinese t \<noteq> []
          then set_property translations (english t) (chinese t)
          else translations)"

text \<open>The inner loop, over the entries of one context.\<close>

fun extract_context :: "po_context \<Rightarrow> mapping \<Rightarrow> mapping" where
  "extract_context [] translations = translations"
| "extract_context (kt # rest) translations =
     extract_context rest (extract_entry kt translations)"

text \<open>The outer loop, over the contexts.\<close>

fun extract_contexts :: "catalog \<Rightarrow> mapping \<Rightarrow> mapping" where
  "extract_contexts [] translations = translations"
| "extract_contexts ((c, es) # rest) translations =
     extract_contexts rest (extract_context es translations)"

definition extractTranslations :: "catalog \<Rightarrow> mapping" where
  "extractTranslations po = extract_contexts po Map.empty"

text \<open>
  \<^verbatim>\<open>processPoPath\<close>. What \<^verbatim>\<open>fs.statSync\<close> finds at the input path is a directory
  (its listing, each name with the catalog its file parses to), a regular file (with its
  catalog) or something else. \<^verbatim>\<open>path.extname\<close> belongs to the platform and is a
  parameter.
\<close>

datatype stats = Directory "(jsstring \<times> catalog) list" | File catalog | Neither

text \<open>
  What the scripts throw: the invalid-path error of \<^verbatim>\<open>processPoPath\<close>, and the
  TypeError of a method call on a value that has no such method.
\<close>

datatype error = InvalidPath jsstring | TypeError

text \<open>
  \<^verbatim>\<open>Object.assign(allTranslations, translations)\<close>: every own property of the source is
  assigned to the target.
\<close>

definition assign :: "mapping \<Rightarrow> mapping \<Rightarrow> mapping" where
  "assign allTranslations translations =
     (\<lambda>k. case translations k of
            None \<Rightarrow> allTranslations k
          | Some v \<Rightarrow> set_property allTranslations k v k)"

fun process_files ::
  "(jsstring \<Rightarrow> jsstring) \<Rightarrow> (jsstring \<times> catalog) list \<Rightarrow> mapping \<Rightarrow> mapping" where
  "process_files extname [] allTranslations = allTranslations"
| "process_files extname ((file, po) # rest) allTranslations =
     (if extname file = str ''.po''
      then process_files extname rest (assign allTranslations (extractTranslations po))
      else process_files extname rest allTranslations)"

definition processPoPath ::
  "(jsstring \<Rightarrow> jsstring) \<Rightarrow> jsstring \<Rightarrow> stats \<Rightarrow> error + mapping" where
  "processPoPath extname inputPath st =
     (case st of
        Directory files \<Rightarrow> Inr (process_files extname files Map.empty)
      | File po \<Rightarrow>
          (if extname inputPath = str ''.po''
           then Inr (assign Map.empty (extractTranslations po))
           else Inl (InvalidPath inputPath))
      | Neither \<Rightarrow> Inl (InvalidPath inputPath))"

section \<open>The fill tool: configuration, environment and effects\<close>

definition SOURCE_LANG :: jsstring where
  "SOURCE_LANG = str ''en''"

definition TARGET_LANG :: jsstring where
  "TARGET_LANG = str ''zh''"

definition RETRY_LIMIT :: nat where
  "RETRY_LIMIT = 3"

definition RETRY_DELAY_BASE :: nat where
  "RETRY_DELAY_BASE = 1000"

definition REQUEST_DELAY :: nat where
  "REQUEST_DELAY = 1000"

text \<open>The form fields of one request to the translation service.\<close>

record request =
  req_q :: jsstring
  req_from :: jsstring
  req_to :: jsstring
  req_appid :: jsstring
  req_salt :: nat
  req_sign :: jsstring

text \<open>
  How \<^verbatim>\<open>axios.post\<close> ends: the promise is rejected, or it resolves with data that has
  no truthy \<^verbatim>\<open>trans_result\<close>, or with a \<^verbatim>\<open>trans_result\<close> array, given here by the
  \<^verbatim>\<open>dst\<close> of each item.
\<close>

datatype response = Rejected | NoTransResult | TransResult "jsstring list"

text \<open>
  What the tool is run with and does not define itself: the two credentials, the MD5
  digest in hexadecimal, the clock and the service. The clock and the service are indexed
  by the number of requests sent before.
\<close>

record env =
  BAIDU_APP_ID :: jsstring
  BAIDU_SECRET_KEY :: jsstring
  md5_hex :: "jsstring \<Rightarrow> jsstring"
  date_now :: "nat \<Rightarrow> nat"
  axios_post :: "nat \<Rightarrow> request \<Rightarrow> response"

text \<open>The lines written to the console, by the source line that writes them.\<close>

datatype message =
    CacheParseError
  | UsingCache jsstring
  | AttemptFailed jsstring nat
  | GivingUp nat
  | WaitingRetry nat
  | Translating jsstring
  | Result jsvalue
  | Finished
  | Unexpected error

text \<open>The effects, in the order in which they happen.\<close>

datatype event = Post request | Sleep nat | Console message

text \<open>
  The state of a run: the \<^verbatim>\<open>cache\<close> object, the mapping last written to the cache file
  by \<^verbatim>\<open>saveCache\<close> (if any), and the effects so far.
\<close>

record world =
  cache :: mapping
  saved :: "mapping option"
  trace :: "event list"

definition emit :: "event \<Rightarrow> world \<Rightarrow> world" where
  "emit ev w = w\<lparr>trace := trace w @ [ev]\<rparr>"

fun is_post :: "event \<Rightarrow> bool" where
  "is_post (Post r) = True"
| "is_post _ = False"

definition posts :: "world \<Rightarrow> nat" where
  "posts w = length (filter is_post (trace w))"

section \<open>The cache\<close>

text \<open>
  The start-up code that reads the cache: the file may be absent; \<^verbatim>\<open>JSON.parse\<close> is the
  platform's and a parameter, \<open>None\<close> standing for its SyntaxError.
\<close>

definition load_cache ::
  "(jsstring \<Rightarrow> mapping option) \<Rightarrow> jsstring option \<Rightarrow> mapping \<times> event list" where
  "load_cache json_parse file =
     (case file of
        None \<Rightarrow> (Map.empty, [])
      | Some cacheContent \<Rightarrow>
          (case json_parse cacheContent of
             Some parsed \<Rightarrow> (parsed, [])
           | None \<Rightarrow> (Map.empty, [Console CacheParseError])))"

definition saveCache :: "world \<Rightarrow> world" where
  "saveCache w = w\<lparr>saved := Some (cache w)\<rparr>"

section \<open>The provider client\<close>

text \<open>A number turned into a string by \<^verbatim>\<open>+\<close>: its decimal digits.\<close>

fun dec :: "nat \<Rightarrow> jsstring" where
  "dec n = (if n < 10 then [0x30 + of_nat n] else dec (n div 10) @ [0x30 + of_nat (n mod 10)])"

definition getBaiduSign :: "env \<Rightarrow> jsstring \<Rightarrow> nat \<Rightarrow> jsstring" where
  "getBaiduSign E query salt =
     md5_hex E (BAIDU_APP_ID E @ query @ dec salt @ BAIDU_SECRET_KEY E)"

text \<open>The parameters built at the top of the \<^verbatim>\<open>try\<close> block.\<close>

definition build_request :: "env \<Rightarrow> jsstring \<Rightarrow> world \<Rightarrow> request" where
  "build_request E text w =
     (let salt = date_now E (posts w);
          sign = getBaiduSign E text salt
      in \<lparr>req_q = text, req_from = SOURCE_LANG, req_to = TARGET_LANG,
          req_appid = BAIDU_APP_ID E, req_salt = salt, req_sign = sign\<rparr>)"

text \<open>
  The array that the \<^verbatim>\<open>try\<close> block maps over, if it gets that far: a rejected
  request throws at \<^verbatim>\<open>await\<close>, and data without a truthy \<^verbatim>\<open>trans_result\<close> throws
  in the \<^verbatim>\<open>else\<close> branch. Both land in the same \<^verbatim>\<open>catch\<close>.
\<close>

fun trans_result :: "response \<Rightarrow> jsstring list option" where
  "trans_result (TransResult dsts) = Some dsts"
| "trans_result NoTransResult = None"
| "trans_result Rejected = None"

text \<open>
  The retry loop of \<^verbatim>\<open>translateText\<close>, from attempt number \<open>attempt\<close> on. A loop that
  ends without returning leaves the result \<^verbatim>\<open>undefined\<close>.
\<close>

function attempts ::
  "env \<Rightarrow> jsstring \<Rightarrow> nat \<Rightarrow> nat \<Rightarrow> world \<Rightarrow> jsvalue \<times> world" where
  "attempts E text retries attempt w =
     (if attempt \<le> retries then
        (let req = build_request E text w;
             response = axios_post E (posts w) req;
             w1 = emit (Post req) w
         in case trans_result response of
              Some dsts \<Rightarrow>
                (let translatedText = trim (join [newline] dsts);
                     w2 = saveCache (w1\<lparr>cache := set_property (cache w1) text translatedText\<rparr>)
                 in (Text translatedText, w2))
            | None \<Rightarrow>
                (let w2 = emit (Console (AttemptFailed text attempt)) w1
                 in if attempt = retries
                    then (Text text, emit (Console (GivingUp retries)) w2)
                    else (let delay = RETRY_DELAY_BASE * 2 ^ (attempt - 1);
                              w3 = emit (Console (WaitingRetry delay)) w2;
                              w4 = emit (Sleep delay) w3
                          in attempts E text retries (attempt + 1) w4)))
      else (Undefined, w))"
  by pat_completeness auto
termination
  by (relation "measure (\<lambda>(E, text, retries, attempt, w). Suc retries - attempt)") auto

text \<open>
  \<^verbatim>\<open>translateText(text, retries)\<close>. The guard \<^verbatim>\<open>if (cache[text])\<close> holds when the cache
  has a non-empty string of its own for \<open>text\<close>, and also when it has none and \<open>text\<close>
  names a member of \<^verbatim>\<open>Object.prototype\<close>: then that member is what is returned.
\<close>

definition translateText :: "env \<Rightarrow> jsstring \<Rightarrow> nat \<Rightarrow> world \<Rightarrow> jsvalue \<times> world" where
  "translateText E text retries w =
     (if truthy (get_property (cache w) text)
      then (get_property (cache w) text, emit (Console (UsingCache text)) w)
      else attempts E text retries 1 w)"

section \<open>The fill workflow\<close>

text \<open>
  The test of line 123, \<^verbatim>\<open>!translation.msgstr || translation.msgstr.join('').trim() === ''\<close>.
  A missing \<open>msgstr\<close> and an empty string are falsy; an array is truthy, also when empty;
  a non-empty string is truthy and has no \<^verbatim>\<open>join\<close>, so the call throws.
\<close>

definition untranslated :: "entry \<Rightarrow> error + bool" where
  "untranslated t =
     (case msgstr t of
        None \<Rightarrow> Inr True
      | Some (Str s) \<Rightarrow> (if s = [] then Inr True else Inl TypeError)
      | Some (Arr ls) \<Rightarrow> Inr (trim (join [] (map to_text ls)) = []))"

text \<open>The value of the local \<^verbatim>\<open>originalText\<close> of \<^verbatim>\<open>main\<close>.\<close>

definition originalText :: "entry \<Rightarrow> jsstring" where
  "originalText t = (case msgid t of Arr ls \<Rightarrow> join [] (map to_text ls) | Str s \<Rightarrow> s)"

text \<open>
  The assignment to \<^verbatim>\<open>translation.msgstr\<close>, lines 133 to 138. Only a string has
  \<^verbatim>\<open>split\<close>: on any other value the call throws.
\<close>

definition write_back :: "jsstring \<Rightarrow> jsvalue \<Rightarrow> entry \<Rightarrow> error + entry" where
  "write_back text translatedText t =
     (if includes_newline text
      then (case translatedText of
              Text s \<Rightarrow>
                (let translatedLines = join [newline] (map (\<lambda>line. line) (split newline s))
                 in Inr (t\<lparr>msgstr := Some (Arr [Text translatedLines])\<rparr>))
            | _ \<Rightarrow> Inl TypeError)
      else Inr (t\<lparr>msgstr := Some (Arr [translatedText])\<rparr>))"

text \<open>
  One turn of the inner loop of \<^verbatim>\<open>main\<close>: the entry under key \<open>k\<close>, mutated in place.
  The result is the error thrown (if any), the entry and the state afterwards.
  \<^verbatim>\<open>translateText\<close> is called with its default \<open>RETRY_LIMIT\<close>.
\<close>

definition fill_entry :: "env \<Rightarrow> jsstring \<times> entry \<Rightarrow> world \<Rightarrow> error option \<times> entry \<times> world" where
  "fill_entry E kt w =
     (case kt of (k, t) \<Rightarrow>
        if k = [] then (None, t, w)
        else (case untranslated t of
                Inl err \<Rightarrow> (Some err, t, w)
              | Inr False \<Rightarrow> (None, t, w)
              | Inr True \<Rightarrow>
                  (let w1 = emit (Console (Translating k)) w;
                       text = originalText t
                   in case translateText E text RETRY_LIMIT w1 of
                        (translatedText, w2) \<Rightarrow>
                          (case write_back text translatedText t of
                             Inl err \<Rightarrow> (Some err, t, w2)
                           | Inr t' \<Rightarrow>
                               (let w3 = emit (Console (Result translatedText)) w2;
                                    w4 = emit (Sleep REQUEST_DELAY) w3
                                in (None, t', w4))))))"

text \<open>The inner loop: an exception leaves the remaining entries as they are.\<close>

fun fill_context :: "env \<Rightarrow> po_context \<Rightarrow> world \<Rightarrow> error option \<times> po_context \<times> world" where
  "fill_context E [] w = (None, [], w)"
| "fill_context E ((k, t) # rest) w =
     (case fill_entry E (k, t) w of
        (Some err, t', w') \<Rightarrow> (Some err, (k, t') # rest, w')
      | (None, t', w') \<Rightarrow>
          (case fill_context E rest w' of
             (r, rest', w'') \<Rightarrow> (r, (k, t') # rest', w'')))"

text \<open>The outer loop, over the contexts.\<close>

fun fill_contexts :: "env \<Rightarrow> catalog \<Rightarrow> world \<Rightarrow> error option \<times> catalog \<times> world" where
  "fill_contexts E [] w = (None, [], w)"
| "fill_contexts E ((c, es) # rest) w =
     (case fill_context E es w of
        (Some err, es', w') \<Rightarrow> (Some err, (c, es') # rest, w')
      | (None, es', w') \<Rightarrow>
          (case fill_contexts E rest w' of
             (r, rest', w'') \<Rightarrow> (r, (c, es') # rest', w'')))"

text \<open>
  \<^verbatim>\<open>main\<close> on a parsed catalog: the catalog as it is in memory at the end, the catalog
  written to the output file (none when an exception reached the \<^verbatim>\<open>catch\<close>), and the
  state.
\<close>

definition main :: "env \<Rightarrow> catalog \<Rightarrow> world \<Rightarrow> catalog \<times> catalog option \<times> world" where
  "main E po w =
     (case fill_contexts E po w of
        (None, po', w') \<Rightarrow> (po', Some po', emit (Console Finished) w')
      | (Some err, po', w') \<Rightarrow> (po', None, emit (Console (Unexpected err)) w'))"

section \<open>Observations and sample inputs\<close>

text \<open>
  What the outside sees of a run, in order: each request by its query text, each timed
  wait by its length in milliseconds.
\<close>

fun wire :: "event \<Rightarrow> (jsstring + nat) list" where
  "wire (Post r) = [Inl (req_q r)]"
| "wire (Sleep d) = [Inr d]"
| "wire (Console m) = []"

definition timeline :: "world \<Rightarrow> (jsstring + nat) list" where
  "timeline w = concat (map wire (trace w))"

text \<open>
  A catalog without the entries under the empty key, and a catalog with only those.
\<close>

definition without_header :: "catalog \<Rightarrow> catalog" where
  "without_header po = map (\<lambda>(c, es). (c, filter (\<lambda>(k, t). k \<noteq> []) es)) po"

definition header_entries :: "catalog \<Rightarrow> catalog" where
  "header_entries po = map (\<lambda>(c, es). (c, filter (\<lambda>(k, t). k = []) es)) po"

text \<open>Sample inputs for the closed instances below.\<close>

definition always :: "response \<Rightarrow> nat \<Rightarrow> request \<Rightarrow> response" where
  "always r n req = r"

definition sample_env :: "(nat \<Rightarrow> request \<Rightarrow> response) \<Rightarrow> env" where
  "sample_env service =
     \<lparr>BAIDU_APP_ID = str ''app'', BAIDU_SECRET_KEY = str ''key'', md5_hex = id,
      date_now = id, axios_post = service\<rparr>"

definition fresh :: "mapping \<Rightarrow> world" where
  "fresh c = \<lparr>cache = c, saved = None, trace = []\<rparr>"

definition never_parses :: "jsstring \<Rightarrow> mapping option" where
  "never_parses s = None"

definition xy_service :: "nat \<Rightarrow> request \<Rightarrow> response" where
  "xy_service = always (TransResult [str ''X'', str ''Y''])"

definition ab_text :: jsstring where
  "ab_text = str ''A'' @ [newline] @ str ''B''"

definition xy_text :: jsstring where
  "xy_text = str ''X'' @ [newline] @ str ''Y''"

definition ab_entry :: entry where
  "ab_entry = \<lparr>msgid = Str ab_text, msgstr = Some (Arr [Text []])\<rparr>"

definition done_entry :: entry where
  "done_entry = \<lparr>msgid = Str (str ''A''), msgstr = Some (Arr [Text (str ''X'')])\<rparr>"

definition two_line_entry :: entry where
  "two_line_entry = \<lparr>msgid = Arr [Text (str ''A''), Text (str ''B'')], msgstr = None\<rparr>"

definition hello_a :: entry where
  "hello_a = \<lparr>msgid = Str (str ''Hello''), msgstr = Some (Arr [Text (str ''A'')])\<rparr>"

definition hello_b :: entry where
  "hello_b = \<lparr>msgid = Str (str ''Hello''), msgstr = Some (Arr [Text (str ''B'')])\<rparr>"

definition hello_untranslated :: entry where
  "hello_untranslated = \<lparr>msgid = Str (str ''Hello''), msgstr = Some (Arr [Text []])\<rparr>"

definition blank_header :: entry where
  "blank_header = \<lparr>msgid = Str [], msgstr = Some (Arr [Text []])\<rparr>"

definition two_contexts :: catalog where
  "two_contexts =
     [([], [([], blank_header), (str ''Hello'', hello_a)]),
      (str ''menu'', [(str ''Hello'', hello_b)])]"

definition catalog_a :: catalog where
  "catalog_a = [([], [([], blank_header), (str ''Hello'', hello_a)])]"

definition catalog_b :: catalog where
  "catalog_b = [([], [(str ''Hello'', hello_b)])]"

definition catalog_untranslated :: catalog where
  "catalog_untranslated = [([], [(str ''Hello'', hello_untranslated)])]"

definition catalog_ab :: catalog where
  "catalog_ab = [([], [([], blank_header), (ab_text, ab_entry)])]"

text \<open>On the sample file names, the extension is the last three code units.\<close>

definition last3 :: "jsstring \<Rightarrow> jsstring" where
  "last3 p = drop (length p - 3) p"

section \<open>Strings\<close>

lemma join_empty_sep: "join [] ls = concat ls"
  by (induction "[]::jsstring" ls rule: join.induct) auto

lemma split_not_Nil: "split c s \<noteq> []"
  by (induction s) auto

lemma join_split: "join [c] (split c s) = s"
proof (induction s)
  case Nil
  show ?case by simp
next
  case (Cons x xs)
  obtain p ps where ps: "split c xs = p # ps"
    using split_not_Nil [of c xs] by (cases "split c xs") auto
  show ?case
  proof (cases "x = c")
    case True
    with Cons ps show ?thesis by simp
  next
    case False
    with Cons ps show ?thesis by (cases ps) auto
  qed
qed

lemma trim_empty_iff: "trim s = [] \<longleftrightarrow> (\<forall>c\<in>set s. is_space c)"
proof
  assume "trim s = []"
  then have "dropWhile is_space (rev (dropWhile is_space s)) = []"
    by (simp add: trim_def)
  then have a: "\<forall>c\<in>set (dropWhile is_space s). is_space c"
    by simp
  show "\<forall>c\<in>set s. is_space c"
  proof (cases "dropWhile is_space s")
    case Nil
    then show ?thesis by simp
  next
    case (Cons y ys)
    then have "\<not> is_space y" using hd_dropWhile [of is_space s] by auto
    with a Cons show ?thesis by simp
  qed
next
  assume "\<forall>c\<in>set s. is_space c"
  then have "dropWhile is_space s = []" by simp
  then have "trim s = rev (dropWhile is_space (rev []))" by (simp only: trim_def)
  then show "trim s = []" by simp
qed

lemma length_join: "length (join [c] ls) = length (concat ls) + (length ls - 1)"
  by (induction "[c]" ls rule: join.induct) auto

lemma join_eq_concat_iff: "(concat ls \<noteq> join [c] ls) = (2 \<le> length ls)"
proof (cases ls)
  case Nil
  then show ?thesis by simp
next
  case (Cons x xs)
  show ?thesis
  proof (cases xs)
    case Nil
    with Cons show ?thesis by simp
  next
    case (Cons y ys)
    have "length (join [c] ls) \<noteq> length (concat ls)"
      unfolding length_join using \<open>ls = x # xs\<close> Cons by simp
    then have "concat ls \<noteq> join [c] ls" by metis
    with \<open>ls = x # xs\<close> Cons show ?thesis by simp
  qed
qed

section \<open>Plain objects\<close>

lemma newline_not_in_member: "k \<in> set prototype_members \<Longrightarrow> \<not> includes_newline k"
  by (auto simp: prototype_members_def includes_newline_def str_def newline_def)

lemma get_property_own [simp]: "obj k = Some s \<Longrightarrow> get_property obj k = Text s"
  by (simp add: get_property_def)

lemma get_property_plain [simp]:
  "obj k = None \<Longrightarrow> k \<notin> set prototype_members \<Longrightarrow> get_property obj k = Undefined"
  by (simp add: get_property_def)

lemma get_property_inherited [simp]:
  "obj k = None \<Longrightarrow> k \<in> set prototype_members \<Longrightarrow> get_property obj k = Inherited k"
  by (simp add: get_property_def)

lemma set_property_elsewhere: "s \<noteq> k \<Longrightarrow> set_property obj k v s = obj s"
  by (simp add: set_property_def)

lemma set_property_here:
  "k \<noteq> str ''__proto__'' \<or> obj k \<noteq> None \<Longrightarrow> set_property obj k v k = Some v"
  by (auto simp: set_property_def)

lemma set_property_proto: "obj (str ''__proto__'') = None \<Longrightarrow> set_property obj (str ''__proto__'') v = obj"
  by (simp add: set_property_def)

section \<open>The retry loop, one step at a time\<close>

declare attempts.simps [simp del]

lemma attempts_success:
  "attempt \<le> retries \<Longrightarrow>
   trans_result (axios_post E (posts w) (build_request E text w)) = Some dsts \<Longrightarrow>
   attempts E text retries attempt w =
     (Text (trim (join [newline] dsts)),
      saveCache ((emit (Post (build_request E text w)) w)
        \<lparr>cache := set_property (cache w) text (trim (join [newline] dsts))\<rparr>))"
  by (subst attempts.simps) (simp add: Let_def emit_def)

lemma attempts_last:
  "trans_result (axios_post E (posts w) (build_request E text w)) = None \<Longrightarrow>
   attempts E text retries retries w =
     (Text text,
      emit (Console (GivingUp retries))
        (emit (Console (AttemptFailed text retries))
          (emit (Post (build_request E text w)) w)))"
  by (subst attempts.simps) (simp add: Let_def)

lemma attempts_retry:
  "attempt < retries \<Longrightarrow>
   trans_result (axios_post E (posts w) (build_request E text w)) = None \<Longrightarrow>
   attempts E text retries attempt w =
     attempts E text retries (attempt + 1)
       (emit (Sleep (RETRY_DELAY_BASE * 2 ^ (attempt - 1)))
         (emit (Console (WaitingRetry (RETRY_DELAY_BASE * 2 ^ (attempt - 1))))
           (emit (Console (AttemptFailed text attempt))
             (emit (Post (build_request E text w)) w))))"
  by (subst attempts.simps) (simp add: Let_def)

lemma attempts_none: "retries < attempt \<Longrightarrow> attempts E text retries attempt w = (Undefined, w)"
  by (subst attempts.simps) simp

lemma attempts_defined:
  "attempt \<le> retries \<Longrightarrow> \<exists>s. fst (attempts E text retries attempt w) = Text s"
proof (induction "retries - attempt" arbitrary: attempt w)
  case 0
  then have eq: "attempt = retries" by simp
  show ?case
  proof (cases "trans_result (axios_post E (posts w) (build_request E text w))")
    case None
    then show ?thesis unfolding eq by (simp add: attempts_last)
  next
    case (Some dsts)
    then show ?thesis unfolding eq by (simp add: attempts_success)
  qed
next
  case (Suc n)
  then have lt: "attempt < retries" and n: "n = retries - (attempt + 1)" by simp_all
  note ih = Suc.hyps(1)
  show ?case
  proof (cases "trans_result (axios_post E (posts w) (build_request E text w))")
    case None
    with lt ih [OF n] show ?thesis by (simp add: attempts_retry)
  next
    case (Some dsts)
    with lt show ?thesis by (simp add: attempts_success)
  qed
qed

text \<open>
  With a positive retry limit \<open>translateText\<close> returns a string, unless \<open>text\<close> names a
  member of \<^verbatim>\<open>Object.prototype\<close> that no own property of the cache hides: then it
  returns that member.
\<close>

lemma translateText_result:
  assumes "0 < retries"
  shows "(\<exists>s. fst (translateText E text retries w) = Text s) \<or>
    (cache w text = None \<and> text \<in> set prototype_members \<and>
     translateText E text retries w = (Inherited text, emit (Console (UsingCache text)) w))"
proof (cases "truthy (get_property (cache w) text)")
  case True
  then show ?thesis
    by (cases "cache w text"; cases "text \<in> set prototype_members")
      (simp_all add: translateText_def)
next
  case False
  from assms have "1 \<le> retries" by simp
  from attempts_defined [OF this, of E "text" w] False show ?thesis
    by (simp add: translateText_def)
qed

lemma translateText_defined:
  "0 < retries \<Longrightarrow> fst (translateText E text retries w) \<noteq> Undefined"
  using translateText_result [of retries E "text" w] by auto

lemma translateText_text:
  "0 < retries \<Longrightarrow> text \<notin> set prototype_members \<or> cache w text \<noteq> None \<Longrightarrow>
   \<exists>s. fst (translateText E text retries w) = Text s"
  using translateText_result [of retries E "text" w] by auto

section \<open>Effects of a single event\<close>

lemma posts_emit_Console [simp]: "posts (emit (Console m) w) = posts w"
  by (simp add: posts_def emit_def)

lemma posts_emit_Sleep [simp]: "posts (emit (Sleep d) w) = posts w"
  by (simp add: posts_def emit_def)

lemma posts_emit_Post [simp]: "posts (emit (Post r) w) = Suc (posts w)"
  by (simp add: posts_def emit_def)

lemma cache_emit [simp]: "cache (emit ev w) = cache w"
  by (simp add: emit_def)

lemma trace_emit [simp]: "trace (emit ev w) = trace w @ [ev]"
  by (simp add: emit_def)

lemma timeline_emit [simp]: "timeline (emit ev w) = timeline w @ wire ev"
  by (simp add: timeline_def emit_def)

section \<open>What the retry loop sends\<close>

lemma req_q_build_request [simp]: "req_q (build_request E text w) = text"
  by (simp add: build_request_def Let_def)

lemma attempts_trace_grows:
  "\<exists>suffix. trace (snd (attempts E text retries attempt w)) = trace w @ suffix"
proof (induction "Suc retries - attempt" arbitrary: attempt w)
  case 0
  then have "retries < attempt" by simp
  then show ?case by (simp add: attempts_none)
next
  case (Suc n)
  then have le: "attempt \<le> retries" and n: "n = Suc retries - (attempt + 1)" by simp_all
  note ih = Suc.hyps(1)
  show ?case
  proof (cases "trans_result (axios_post E (posts w) (build_request E text w))")
    case (Some dsts)
    with le show ?thesis by (simp add: attempts_success saveCache_def)
  next
    case None
    show ?thesis
    proof (cases "attempt = retries")
      case True
      with None show ?thesis by (simp add: attempts_last)
    next
      case False
      with le have lt: "attempt < retries" by simp
      from ih [OF n] obtain suffix where
        "trace (snd (attempts E text retries (attempt + 1)
           (emit (Sleep (RETRY_DELAY_BASE * 2 ^ (attempt - 1)))
             (emit (Console (WaitingRetry (RETRY_DELAY_BASE * 2 ^ (attempt - 1))))
               (emit (Console (AttemptFailed text attempt))
                 (emit (Post (build_request E text w)) w)))))) =
         trace (emit (Sleep (RETRY_DELAY_BASE * 2 ^ (attempt - 1)))
             (emit (Console (WaitingRetry (RETRY_DELAY_BASE * 2 ^ (attempt - 1))))
               (emit (Console (AttemptFailed text attempt))
                 (emit (Post (build_request E text w)) w)))) @ suffix"
        by blast
      with lt None show ?thesis by (simp add: attempts_retry)
    qed
  qed
qed

lemma attempts_first_event:
  assumes "attempt \<le> retries"
  shows "\<exists>rest. trace (snd (attempts E text retries attempt w)) =
           trace w @ Post (build_request E text w) # rest"
proof (cases "trans_result (axios_post E (posts w) (build_request E text w))")
  case (Some dsts)
  with assms show ?thesis by (simp add: attempts_success saveCache_def)
next
  case None
  show ?thesis
  proof (cases "attempt = retries")
    case True
    with None show ?thesis by (simp add: attempts_last)
  next
    case False
    with assms have lt: "attempt < retries" by simp
    obtain suffix where
      "trace (snd (attempts E text retries (attempt + 1)
         (emit (Sleep (RETRY_DELAY_BASE * 2 ^ (attempt - 1)))
           (emit (Console (WaitingRetry (RETRY_DELAY_BASE * 2 ^ (attempt - 1))))
             (emit (Console (AttemptFailed text attempt))
               (emit (Post (build_request E text w)) w)))))) =
       trace (emit (Sleep (RETRY_DELAY_BASE * 2 ^ (attempt - 1)))
           (emit (Console (WaitingRetry (RETRY_DELAY_BASE * 2 ^ (attempt - 1))))
             (emit (Console (AttemptFailed text attempt))
               (emit (Post (build_request E text w)) w)))) @ suffix"
      using attempts_trace_grows by blast
    with lt None show ?thesis by (simp add: attempts_retry)
  qed
qed

lemma attempts_all_fail:
  assumes fail: "\<forall>n r. trans_result (axios_post E n r) = None"
  shows "attempt \<le> retries \<Longrightarrow>
    fst (attempts E text retries attempt w) = Text text \<and>
    posts (snd (attempts E text retries attempt w)) = posts w + (Suc retries - attempt) \<and>
    timeline (snd (attempts E text retries attempt w)) =
      timeline w @
      concat (map (\<lambda>k. [Inl text, Inr (RETRY_DELAY_BASE * 2 ^ (k - 1))]) [attempt..<retries]) @
      [Inl text] \<and>
    cache (snd (attempts E text retries attempt w)) = cache w"
proof (induction "retries - attempt" arbitrary: attempt w)
  case 0
  then have eq: "attempt = retries" by simp
  from fail have "trans_result (axios_post E (posts w) (build_request E text w)) = None"
    by simp
  then show ?case unfolding eq by (simp add: attempts_last)
next
  case (Suc n)
  then have lt: "attempt < retries" and n: "n = retries - (attempt + 1)"
    and le: "attempt + 1 \<le> retries" by simp_all
  note ih = Suc.hyps(1) [OF n le]
  from fail have none: "trans_result (axios_post E (posts w) (build_request E text w)) = None"
    by simp
  from lt have upt: "[attempt..<retries] = attempt # [attempt + 1..<retries]"
    by (simp add: upt_conv_Cons)
  show ?case
    unfolding attempts_retry [OF lt none] upt
    using lt ih [of "emit (Sleep (RETRY_DELAY_BASE * 2 ^ (attempt - 1)))
         (emit (Console (WaitingRetry (RETRY_DELAY_BASE * 2 ^ (attempt - 1))))
           (emit (Console (AttemptFailed text attempt))
             (emit (Post (build_request E text w)) w)))"]
    by simp
qed

lemma req_sign_build_request [simp]:
  "req_sign (build_request E text w) = getBaiduSign E text (req_salt (build_request E text w))"
  by (simp add: build_request_def Let_def)

lemma attempts_requests:
  "\<exists>suffix. trace (snd (attempts E text retries attempt w)) = trace w @ suffix \<and>
     (\<forall>r. Post r \<in> set suffix \<longrightarrow>
        req_q r = text \<and> req_sign r = getBaiduSign E text (req_salt r))"
proof (induction "Suc retries - attempt" arbitrary: attempt w)
  case 0
  then have "retries < attempt" by simp
  then show ?case by (simp add: attempts_none)
next
  case (Suc n)
  then have le: "attempt \<le> retries" and n: "n = Suc retries - (attempt + 1)" by simp_all
  note ih = Suc.hyps(1)
  show ?case
  proof (cases "trans_result (axios_post E (posts w) (build_request E text w))")
    case (Some dsts)
    with le show ?thesis by (simp add: attempts_success saveCache_def)
  next
    case None
    show ?thesis
    proof (cases "attempt = retries")
      case True
      with None show ?thesis by (simp add: attempts_last)
    next
      case False
      with le have lt: "attempt < retries" by simp
      define w4 where "w4 = emit (Sleep (RETRY_DELAY_BASE * 2 ^ (attempt - 1)))
             (emit (Console (WaitingRetry (RETRY_DELAY_BASE * 2 ^ (attempt - 1))))
               (emit (Console (AttemptFailed text attempt))
                 (emit (Post (build_request E text w)) w)))"
      from ih [OF n, of w4] obtain suffix where
        s: "trace (snd (attempts E text retries (attempt + 1) w4)) = trace w4 @ suffix"
        and p: "\<forall>r. Post r \<in> set suffix \<longrightarrow>
          req_q r = text \<and> req_sign r = getBaiduSign E text (req_salt r)"
        by blast
      have step: "attempts E text retries attempt w = attempts E text retries (attempt + 1) w4"
        unfolding w4_def by (rule attempts_retry [OF lt None])
      have "trace w4 = trace w @ [Post (build_request E text w),
          Console (AttemptFailed text attempt),
          Console (WaitingRetry (RETRY_DELAY_BASE * 2 ^ (attempt - 1))),
          Sleep (RETRY_DELAY_BASE * 2 ^ (attempt - 1))]"
        by (simp add: w4_def)
      with s p show ?thesis unfolding step by auto
    qed
  qed
qed

lemma attempts_cache_elsewhere:
  "s \<noteq> text \<Longrightarrow> cache (snd (attempts E text retries attempt w)) s = cache w s"
proof (induction "Suc retries - attempt" arbitrary: attempt w)
  case 0
  then have "retries < attempt" by simp
  then show ?case by (simp add: attempts_none)
next
  case (Suc n)
  then have le: "attempt \<le> retries" and n: "n = Suc retries - (attempt + 1)" by simp_all
  note ih = Suc.hyps(1) [OF n \<open>s \<noteq> text\<close>]
  show ?case
  proof (cases "trans_result (axios_post E (posts w) (build_request E text w))")
    case (Some dsts)
    with le \<open>s \<noteq> text\<close> show ?thesis
      by (simp add: attempts_success saveCache_def set_property_elsewhere)
  next
    case None
    show ?thesis
    proof (cases "attempt = retries")
      case True
      with None show ?thesis by (simp add: attempts_last)
    next
      case False
      with le have lt: "attempt < retries" by simp
      show ?thesis unfolding attempts_retry [OF lt None] by (simp only: ih cache_emit)
    qed
  qed
qed

lemma translateText_requests:
  "\<exists>suffix. trace (snd (translateText E text retries w)) = trace w @ suffix \<and>
     (\<forall>r. Post r \<in> set suffix \<longrightarrow>
        req_q r = text \<and> req_sign r = getBaiduSign E text (req_salt r))"
proof (cases "truthy (get_property (cache w) text)")
  case True
  then show ?thesis by (simp add: translateText_def)
next
  case False
  then have "translateText E text retries w = attempts E text retries 1 w"
    by (simp add: translateText_def)
  then show ?thesis using attempts_requests [of E "text" retries 1 w] by simp
qed

lemma translateText_cache_elsewhere:
  "s \<noteq> text \<Longrightarrow> cache (snd (translateText E text retries w)) s = cache w s"
  by (simp add: translateText_def attempts_cache_elsewhere)

section \<open>Loading a corrupt cache\<close>

text \<open>
  Claim C7. When the cache file exists and its content does not parse as JSON, loading
  yields the empty mapping and one line on the error console; no error leaves the loader.
\<close>

theorem load_cache_corrupt:
  "json_parse cacheContent = None \<Longrightarrow>
   load_cache json_parse (Some cacheContent) = (Map.empty, [Console CacheParseError])"
  by (simp add: load_cache_def)

theorem load_cache_corrupt_witness:
  "load_cache never_parses (Some (str ''{'')) = (Map.empty, [Console CacheParseError])"
  using load_cache_corrupt [of never_parses "str ''{''"] by (simp add: never_parses_def)

section \<open>Cache hits\<close>

text \<open>
  Claim C2, amended. When the cache holds a non-empty string for \<open>text\<close>,
  \<open>translateText\<close> returns that string and sends no request. (The guard tests the
  stored value, so a key stored with the empty string does not count as a hit.)
\<close>

theorem translateText_cache_hit:
  "cache w text = Some cached \<Longrightarrow> cached \<noteq> [] \<Longrightarrow>
   translateText E text retries w = (Text cached, emit (Console (UsingCache text)) w) \<and>
   posts (snd (translateText E text retries w)) = posts w"
  by (simp add: translateText_def)

theorem translateText_cache_hit_witness:
  "translateText (sample_env (always Rejected)) (str ''A'') RETRY_LIMIT
     (fresh [str ''A'' \<mapsto> str ''X'']) =
     (Text (str ''X''),
      emit (Console (UsingCache (str ''A''))) (fresh [str ''A'' \<mapsto> str ''X''])) \<and>
   posts (snd (translateText (sample_env (always Rejected)) (str ''A'') RETRY_LIMIT
     (fresh [str ''A'' \<mapsto> str ''X'']))) = 0"
  using translateText_cache_hit [of "fresh [str ''A'' \<mapsto> str ''X'']" "str ''A''" "str ''X''"
      "sample_env (always Rejected)" RETRY_LIMIT]
  by (simp add: fresh_def str_def posts_def)

text \<open>
  Claim C2 as stated fails: with the key \<open>A\<close> present in the cache and stored with the
  empty string, \<open>translateText\<close> sends a request and returns the service's answer, not
  the cached value.
\<close>

theorem translateText_cache_hit_counterexample:
  "str ''A'' \<in> dom (cache (fresh [str ''A'' \<mapsto> []])) \<and>
   cache (fresh [str ''A'' \<mapsto> []]) (str ''A'') = Some [] \<and>
   posts (fresh [str ''A'' \<mapsto> []]) = 0 \<and>
   posts (snd (translateText (sample_env (always (TransResult [str ''X''])))
     (str ''A'') RETRY_LIMIT (fresh [str ''A'' \<mapsto> []]))) = 1 \<and>
   fst (translateText (sample_env (always (TransResult [str ''X''])))
     (str ''A'') RETRY_LIMIT (fresh [str ''A'' \<mapsto> []])) = Text (str ''X'')"
  by (simp add: translateText_def fresh_def attempts_success RETRY_LIMIT_def sample_env_def
      always_def trim_def is_space_def str_def posts_def saveCache_def emit_def)

text \<open>
  Claim C10. When the cache holds the empty string for \<open>text\<close>, the key is present but
  the guard fails: \<open>translateText\<close> goes on to the retry loop, and with a positive retry
  limit the first thing it does is to send a request for \<open>text\<close>.
\<close>

theorem translateText_empty_cached:
  assumes "cache w text = Some []" and "0 < retries"
  shows "translateText E text retries w = attempts E text retries 1 w \<and>
    (\<exists>rest. trace (snd (translateText E text retries w)) =
       trace w @ Post (build_request E text w) # rest)"
proof -
  from assms(1) have eq: "translateText E text retries w = attempts E text retries 1 w"
    by (simp add: translateText_def)
  from assms(2) have "1 \<le> retries" by simp
  from attempts_first_event [OF this] eq show ?thesis by simp
qed

theorem translateText_empty_cached_witness:
  "translateText (sample_env (always Rejected)) (str ''A'') RETRY_LIMIT (fresh [str ''A'' \<mapsto> []]) =
     attempts (sample_env (always Rejected)) (str ''A'') RETRY_LIMIT 1 (fresh [str ''A'' \<mapsto> []]) \<and>
   (\<exists>rest. trace (snd (translateText (sample_env (always Rejected)) (str ''A'') RETRY_LIMIT
        (fresh [str ''A'' \<mapsto> []]))) =
      trace (fresh [str ''A'' \<mapsto> []]) @
      Post (build_request (sample_env (always Rejected)) (str ''A'') (fresh [str ''A'' \<mapsto> []])) # rest)"
proof -
  have hit: "cache (fresh [str ''A'' \<mapsto> []]) (str ''A'') = Some []"
    by (simp add: fresh_def)
  have limit: "0 < RETRY_LIMIT"
    by (simp add: RETRY_LIMIT_def)
  show ?thesis
    by (rule translateText_empty_cached [OF hit limit])
qed

section \<open>Exhausted retries\<close>

text \<open>
  When \<open>text\<close> is not in the cache, names no member of \<^verbatim>\<open>Object.prototype\<close>, and every
  attempt fails (the request is rejected or the response has no \<open>trans_result\<close>),
  \<open>translateText\<close> with a retry limit of at least one returns \<open>text\<close> itself, having sent
  exactly that many requests; between the request of attempt \<open>k\<close> and that of attempt
  \<open>k + 1\<close> it waits the base delay times \<open>2 ^ (k - 1)\<close>, and it waits no more after the
  last. The result is a value, not an exception, and the cache is as before.
\<close>

lemma translateText_exhausted:
  assumes "cache w text = None" and "text \<notin> set prototype_members"
    and "\<forall>n r. trans_result (axios_post E n r) = None"
    and "0 < retries"
  shows "fst (translateText E text retries w) = Text text \<and>
    posts (snd (translateText E text retries w)) = posts w + retries \<and>
    timeline (snd (translateText E text retries w)) =
      timeline w @
      concat (map (\<lambda>k. [Inl text, Inr (RETRY_DELAY_BASE * 2 ^ (k - 1))]) [1..<retries]) @
      [Inl text] \<and>
    cache (snd (translateText E text retries w)) = cache w"
proof -
  from assms(1,2) have eq: "translateText E text retries w = attempts E text retries 1 w"
    by (simp add: translateText_def)
  from assms(4) have "1 \<le> retries" by simp
  from attempts_all_fail [OF assms(3) this, of "text" w] show ?thesis
    unfolding eq by simp
qed

text \<open>The same with the tool's own limit, three: waits of 1000 and 2000 milliseconds.\<close>

lemma translateText_exhausted_default:
  "fst (translateText (sample_env (always Rejected)) (str ''A'') RETRY_LIMIT (fresh Map.empty)) =
     Text (str ''A'') \<and>
   posts (snd (translateText (sample_env (always Rejected)) (str ''A'') RETRY_LIMIT (fresh Map.empty))) = 3 \<and>
   timeline (snd (translateText (sample_env (always Rejected)) (str ''A'') RETRY_LIMIT (fresh Map.empty))) =
     [Inl (str ''A''), Inr 1000, Inl (str ''A''), Inr 2000, Inl (str ''A'')]"
proof -
  have miss: "cache (fresh Map.empty) (str ''A'') = None"
    by (simp add: fresh_def)
  have plain: "str ''A'' \<notin> set prototype_members"
    by (simp add: prototype_members_def str_def)
  have fail: "\<forall>n r. trans_result (axios_post (sample_env (always Rejected)) n r) = None"
    by (simp add: sample_env_def always_def)
  have limit: "0 < RETRY_LIMIT"
    by (simp add: RETRY_LIMIT_def)
  have start: "posts (fresh Map.empty) = 0" "timeline (fresh Map.empty) = []"
    by (simp_all add: fresh_def posts_def timeline_def)
  from translateText_exhausted [OF miss plain fail limit] show ?thesis
    by (simp add: start RETRY_LIMIT_def RETRY_DELAY_BASE_def numeral_3_eq_3)
qed

text \<open>
  Claim C3 fails on the code for a text that names a member of \<^verbatim>\<open>Object.prototype\<close>.
  The text \<^verbatim>\<open>constructor\<close> is not in the empty cache and the service rejects every
  request; the lookup \<^verbatim>\<open>cache[text]\<close> finds the inherited function, which is truthy, so
  \<open>translateText\<close> takes the branch of a cache hit: it returns that function, not the
  text, and sends no request at all.
\<close>

theorem translateText_inherited_name:
  "cache (fresh Map.empty) (str ''constructor'') = None \<and>
   translateText (sample_env (always Rejected)) (str ''constructor'') RETRY_LIMIT (fresh Map.empty) =
     (Inherited (str ''constructor''),
      emit (Console (UsingCache (str ''constructor''))) (fresh Map.empty)) \<and>
   fst (translateText (sample_env (always Rejected)) (str ''constructor'') RETRY_LIMIT
     (fresh Map.empty)) \<noteq> Text (str ''constructor'') \<and>
   posts (snd (translateText (sample_env (always Rejected)) (str ''constructor'') RETRY_LIMIT
     (fresh Map.empty))) = 0"
proof -
  have miss: "cache (fresh Map.empty) (str ''constructor'') = None"
    by (simp add: fresh_def)
  have member: "str ''constructor'' \<in> set prototype_members"
    by (simp add: prototype_members_def)
  have start: "posts (fresh Map.empty) = 0"
    by (simp add: fresh_def posts_def)
  from miss member start show ?thesis
    by (simp add: translateText_def)
qed

section \<open>One entry of the fill workflow\<close>

lemma write_back_text: "write_back text (Text s) t = Inr (t\<lparr>msgstr := Some (Arr [Text s])\<rparr>)"
  by (simp add: write_back_def join_split)

lemma write_back_one_line:
  "\<not> includes_newline text \<Longrightarrow> write_back text v t = Inr (t\<lparr>msgstr := Some (Arr [v])\<rparr>)"
  by (simp add: write_back_def)

lemma limit_positive: "0 < RETRY_LIMIT"
  by (simp add: RETRY_LIMIT_def)

lemma fill_entry_header: "fill_entry E ([], t) w = (None, t, w)"
  by (simp add: fill_entry_def)

lemma fill_entry_translated:
  "k \<noteq> [] \<Longrightarrow> untranslated t = Inr False \<Longrightarrow> fill_entry E (k, t) w = (None, t, w)"
  by (simp add: fill_entry_def)

lemma fill_entry_throws:
  "k \<noteq> [] \<Longrightarrow> untranslated t = Inl err \<Longrightarrow> fill_entry E (k, t) w = (Some err, t, w)"
  by (simp add: fill_entry_def)

lemma fill_entry_untranslated:
  assumes "k \<noteq> []" and "untranslated t = Inr True"
  shows "\<exists>translatedText w2.
    translateText E (originalText t) RETRY_LIMIT (emit (Console (Translating k)) w) =
      (translatedText, w2) \<and>
    translatedText \<noteq> Undefined \<and>
    (originalText t \<notin> set prototype_members \<or> cache w (originalText t) \<noteq> None \<longrightarrow>
       (\<exists>s. translatedText = Text s)) \<and>
    fill_entry E (k, t) w =
      (None, t\<lparr>msgstr := Some (Arr [translatedText])\<rparr>,
       emit (Sleep REQUEST_DELAY) (emit (Console (Result translatedText)) w2))"
proof -
  define w1 where "w1 = emit (Console (Translating k)) w"
  obtain v w2 where tr: "translateText E (originalText t) RETRY_LIMIT w1 = (v, w2)"
    by (cases "translateText E (originalText t) RETRY_LIMIT w1")
  have c: "cache w1 = cache w"
    by (simp add: w1_def)
  from translateText_result [OF limit_positive, of E "originalText t" w1] tr
  have "(\<exists>s. v = Text s) \<or>
    (cache w (originalText t) = None \<and> originalText t \<in> set prototype_members \<and>
     v = Inherited (originalText t))"
    unfolding c by auto
  then have facts: "write_back (originalText t) v t = Inr (t\<lparr>msgstr := Some (Arr [v])\<rparr>) \<and>
    v \<noteq> Undefined \<and>
    (originalText t \<notin> set prototype_members \<or> cache w (originalText t) \<noteq> None \<longrightarrow>
       (\<exists>s. v = Text s))"
  proof
    assume "\<exists>s. v = Text s"
    then show ?thesis by (auto simp: write_back_text)
  next
    assume "cache w (originalText t) = None \<and> originalText t \<in> set prototype_members \<and>
     v = Inherited (originalText t)"
    then show ?thesis by (simp add: write_back_one_line newline_not_in_member)
  qed
  then have wb: "write_back (originalText t) v t = Inr (t\<lparr>msgstr := Some (Arr [v])\<rparr>)"
    and kind: "v \<noteq> Undefined"
    and str: "originalText t \<notin> set prototype_members \<or> cache w (originalText t) \<noteq> None \<longrightarrow>
       (\<exists>s. v = Text s)"
    by blast+
  from assms tr wb have "fill_entry E (k, t) w =
      (None, t\<lparr>msgstr := Some (Arr [v])\<rparr>,
       emit (Sleep REQUEST_DELAY) (emit (Console (Result v)) w2))"
    by (simp add: fill_entry_def Let_def w1_def)
  with tr kind str show ?thesis
    unfolding w1_def by blast
qed

lemma untranslated_Arr:
  "msgstr t = Some (Arr ls) \<Longrightarrow>
   untranslated t = Inr (\<forall>c\<in>set (concat (map to_text ls)). is_space c)"
  by (simp add: untranslated_def join_empty_sep trim_empty_iff)

lemma untranslated_None: "msgstr t = None \<Longrightarrow> untranslated t = Inr True"
  by (simp add: untranslated_def)

lemma fill_entry_changes_trace:
  assumes "k \<noteq> []" and "untranslated t = Inr True"
  shows "fill_entry E (k, t) w \<noteq> (None, t, w)"
proof -
  from fill_entry_untranslated [OF assms, of E w] obtain translatedText w2 where
    tr: "translateText E (originalText t) RETRY_LIMIT (emit (Console (Translating k)) w) =
      (translatedText, w2)"
    and fe: "fill_entry E (k, t) w =
      (None, t\<lparr>msgstr := Some (Arr [translatedText])\<rparr>,
       emit (Sleep REQUEST_DELAY) (emit (Console (Result translatedText)) w2))"
    by blast
  from translateText_requests [of E "originalText t" RETRY_LIMIT "emit (Console (Translating k)) w"] tr
  obtain suffix where "trace w2 = trace (emit (Console (Translating k)) w) @ suffix"
    by auto
  then have "length (trace (emit (Sleep REQUEST_DELAY) (emit (Console (Result translatedText)) w2)))
    > length (trace w)"
    by simp
  then have "emit (Sleep REQUEST_DELAY) (emit (Console (Result translatedText)) w2) \<noteq> w"
    by auto
  with fe show ?thesis by simp
qed

lemma ab_entry_facts:
  "ab_text \<noteq> []" "untranslated ab_entry = Inr True" "originalText ab_entry = ab_text"
  "includes_newline ab_text" "ab_text \<notin> set prototype_members" "english ab_entry = ab_text"
  by (simp_all add: ab_text_def ab_entry_def untranslated_def originalText_def trim_def
      includes_newline_def prototype_members_def str_def english_def)

lemma xy_translate:
  "translateText (sample_env xy_service) ab_text RETRY_LIMIT
     (emit (Console (Translating ab_text)) (fresh Map.empty)) =
   (Text xy_text, saveCache ((emit (Post (build_request (sample_env xy_service) ab_text
      (emit (Console (Translating ab_text)) (fresh Map.empty))))
      (emit (Console (Translating ab_text)) (fresh Map.empty)))
        \<lparr>cache := [ab_text \<mapsto> xy_text]\<rparr>))"
proof -
  have "trim (join [newline] [str ''X'', str ''Y'']) = xy_text"
    by (simp add: xy_text_def trim_def is_space_def str_def newline_def)
  moreover have "cache (emit (Console (Translating ab_text)) (fresh Map.empty)) ab_text = None"
    by (simp add: fresh_def)
  moreover have "set_property Map.empty ab_text xy_text = [ab_text \<mapsto> xy_text]"
    using ab_entry_facts(5) by (auto simp: set_property_def prototype_members_def)
  ultimately show ?thesis
    using ab_entry_facts(5)
    by (simp add: translateText_def attempts_success RETRY_LIMIT_def sample_env_def
        xy_service_def always_def) (simp add: fresh_def emit_def)
qed

section \<open>Writing the translation back\<close>

text \<open>
  Claim C1, amended. For an entry that is not the header, needs translation and whose
  source text has an embedded newline, the translated text is written back as an array
  of exactly one element, the whole translated text with its newlines inside that one
  string: the text is split at its newlines and joined again with newlines before it is
  stored, which gives the text back.
\<close>

theorem fill_entry_one_element:
  assumes "k \<noteq> []" and "untranslated t = Inr True" and "includes_newline (originalText t)"
  shows "\<exists>translatedText w2.
    translateText E (originalText t) RETRY_LIMIT (emit (Console (Translating k)) w) =
      (Text translatedText, w2) \<and>
    fst (snd (fill_entry E (k, t) w)) = t\<lparr>msgstr := Some (Arr [Text translatedText])\<rparr>"
proof -
  from assms(3) have "originalText t \<notin> set prototype_members"
    using newline_not_in_member by blast
  with fill_entry_untranslated [OF assms(1,2), of E w] show ?thesis
    by force
qed

theorem fill_entry_one_element_witness:
  "msgstr (fst (snd (fill_entry (sample_env xy_service) (ab_text, ab_entry) (fresh Map.empty)))) =
     Some (Arr [Text xy_text])"
proof -
  have nl: "includes_newline (originalText ab_entry)"
    by (simp add: ab_entry_facts)
  from fill_entry_one_element [OF ab_entry_facts(1,2) nl, of "sample_env xy_service" "fresh Map.empty"]
  show ?thesis
    by (auto simp: ab_entry_facts xy_translate)
qed

text \<open>
  Claim C1 as stated fails: the source \<open>A\<close>, newline, \<open>B\<close> translated to \<open>X\<close>, newline,
  \<open>Y\<close> is stored as the one string, not as the two lines \<open>X\<close> and \<open>Y\<close>.
\<close>

theorem fill_entry_one_element_counterexample:
  "includes_newline (originalText ab_entry) \<and>
   split newline xy_text = [str ''X'', str ''Y''] \<and>
   fst (translateText (sample_env xy_service) (originalText ab_entry) RETRY_LIMIT
     (emit (Console (Translating ab_text)) (fresh Map.empty))) = Text xy_text \<and>
   msgstr (fst (snd (fill_entry (sample_env xy_service) (ab_text, ab_entry) (fresh Map.empty)))) \<noteq>
     Some (Arr (map Text (split newline xy_text))) \<and>
   msgstr (fst (snd (fill_entry (sample_env xy_service) (ab_text, ab_entry) (fresh Map.empty)))) =
     Some (Arr [Text (str ''X'' @ [newline] @ str ''Y'')])"
proof -
  have sp: "split newline xy_text = [str ''X'', str ''Y'']"
    by (simp add: xy_text_def str_def newline_def)
  have fe: "fst (snd (fill_entry (sample_env xy_service) (ab_text, ab_entry) (fresh Map.empty))) =
    ab_entry\<lparr>msgstr := Some (Arr [Text xy_text])\<rparr>"
    by (simp add: fill_entry_def ab_entry_facts xy_translate Let_def write_back_text)
  show ?thesis
    unfolding fe sp by (simp add: ab_entry_facts xy_translate) (simp add: xy_text_def)
qed

section \<open>Which entries are translated\<close>

text \<open>
  Claim C8. For an entry that is not the header and whose \<open>msgstr\<close> is missing or an
  array of lines: the entry and the state are left exactly as they were if and only if
  the lines are non-empty and not all white space; and when \<open>msgstr\<close> is missing, empty or
  all white space, \<open>translateText\<close> is called on the source text and what it returns is
  stored, a string unless the source text names a member of \<^verbatim>\<open>Object.prototype\<close> that
  the cache has no entry for.
\<close>

theorem fill_entry_translates_iff_blank:
  assumes "k \<noteq> []" and "msgstr t = None \<or> (\<exists>ls. msgstr t = Some (Arr ls))"
  shows "(fill_entry E (k, t) w = (None, t, w)) =
      (\<exists>ls. msgstr t = Some (Arr ls) \<and> ls \<noteq> [] \<and>
         (\<exists>c\<in>set (concat (map to_text ls)). \<not> is_space c)) \<and>
    ((msgstr t = None \<or> msgstr t = Some (Arr []) \<or>
      (\<exists>ls. msgstr t = Some (Arr ls) \<and> (\<forall>c\<in>set (concat (map to_text ls)). is_space c))) \<longrightarrow>
     (\<exists>translatedText w2.
        translateText E (originalText t) RETRY_LIMIT (emit (Console (Translating k)) w) =
          (translatedText, w2) \<and>
        translatedText \<noteq> Undefined \<and>
        (originalText t \<notin> set prototype_members \<or> cache w (originalText t) \<noteq> None \<longrightarrow>
           (\<exists>s. translatedText = Text s)) \<and>
        fill_entry E (k, t) w =
          (None, t\<lparr>msgstr := Some (Arr [translatedText])\<rparr>,
           emit (Sleep REQUEST_DELAY) (emit (Console (Result translatedText)) w2))))"
proof (cases "untranslated t = Inr True")
  case True
  have blank: "\<not> (\<exists>ls. msgstr t = Some (Arr ls) \<and> ls \<noteq> [] \<and>
      (\<exists>c\<in>set (concat (map to_text ls)). \<not> is_space c))"
  proof
    assume "\<exists>ls. msgstr t = Some (Arr ls) \<and> ls \<noteq> [] \<and>
      (\<exists>c\<in>set (concat (map to_text ls)). \<not> is_space c)"
    then obtain ls where "msgstr t = Some (Arr ls)"
      and "\<exists>c\<in>set (concat (map to_text ls)). \<not> is_space c"
      by blast
    with untranslated_Arr [of t ls] True show False by simp
  qed
  from fill_entry_changes_trace [OF assms(1) True, of E w]
    fill_entry_untranslated [OF assms(1) True, of E w] blank
  show ?thesis by blast
next
  case False
  with assms(2) untranslated_None [of t] obtain ls where ls: "msgstr t = Some (Arr ls)"
    by auto
  with False untranslated_Arr [of t ls] have
    some: "\<exists>c\<in>set (concat (map to_text ls)). \<not> is_space c" and un: "untranslated t = Inr False"
    by auto
  from some have "ls \<noteq> []" by auto
  with ls some fill_entry_translated [OF assms(1) un, of E w] show ?thesis
    by auto
qed

theorem fill_entry_translates_iff_blank_witness:
  "fill_entry (sample_env xy_service) (str ''A'', done_entry) (fresh Map.empty) =
     (None, done_entry, fresh Map.empty) \<and>
   fill_entry (sample_env xy_service) (ab_text, ab_entry) (fresh Map.empty) \<noteq>
     (None, ab_entry, fresh Map.empty)"
proof -
  have k: "str ''A'' \<noteq> []"
    by (simp add: str_def)
  have arr: "msgstr done_entry = None \<or> (\<exists>ls. msgstr done_entry = Some (Arr ls))"
    by (simp add: done_entry_def)
  have full: "\<exists>ls. msgstr done_entry = Some (Arr ls) \<and> ls \<noteq> [] \<and>
      (\<exists>c\<in>set (concat (map to_text ls)). \<not> is_space c)"
    by (simp add: done_entry_def str_def is_space_def)
  have arr': "msgstr ab_entry = None \<or> (\<exists>ls. msgstr ab_entry = Some (Arr ls))"
    by (simp add: ab_entry_def)
  have blank: "\<not> (\<exists>ls. msgstr ab_entry = Some (Arr ls) \<and> ls \<noteq> [] \<and>
      (\<exists>c\<in>set (concat (map to_text ls)). \<not> is_space c))"
    by (simp add: ab_entry_def)
  from fill_entry_translates_iff_blank [OF k arr, of "sample_env xy_service" "fresh Map.empty"] full
    fill_entry_translates_iff_blank [OF ab_entry_facts(1) arr', of "sample_env xy_service" "fresh Map.empty"] blank
  show ?thesis by blast
qed

section \<open>The two joinings of a source identifier\<close>

text \<open>
  Claim C9, amended. Both scripts test whether \<open>msgid\<close> is an array. For an entry whose
  \<open>msgid\<close> is an array of lines, the fill workflow concatenates the lines with no
  separator and the extraction joins them with a newline, and the two strings differ
  exactly when there are two lines or more. For an entry whose \<open>msgid\<close> is one string,
  which is how the parser gives a source identifier that spans several lines, both take
  the string as it is, newlines included, and the two keys are the same. In the fill
  workflow that text is what \<open>translateText\<close> is called on, the query and the signed text
  of every request it sends, and the only cache key it may write; the extraction stores
  the entry under its own joining.
\<close>

theorem fill_and_extract_keys:
  assumes "k \<noteq> []" and "untranslated t = Inr True"
  shows "(\<forall>ls. msgid t = Arr ls \<longrightarrow>
       originalText t = concat (map to_text ls) \<and>
       english t = join [newline] (map to_text ls) \<and>
       (originalText t \<noteq> english t) = (2 \<le> length ls)) \<and>
    (\<forall>s. msgid t = Str s \<longrightarrow> originalText t = s \<and> english t = s) \<and>
    (\<exists>translatedText w2.
        translateText E (originalText t) RETRY_LIMIT (emit (Console (Translating k)) w) =
          (translatedText, w2) \<and>
        fill_entry E (k, t) w =
          (None, t\<lparr>msgstr := Some (Arr [translatedText])\<rparr>,
           emit (Sleep REQUEST_DELAY) (emit (Console (Result translatedText)) w2))) \<and>
    (\<exists>suffix. trace (snd (snd (fill_entry E (k, t) w))) = trace w @ suffix \<and>
       (\<forall>r. Post r \<in> set suffix \<longrightarrow>
          req_q r = originalText t \<and>
          req_sign r =
            md5_hex E (BAIDU_APP_ID E @ originalText t @ dec (req_salt r) @ BAIDU_SECRET_KEY E))) \<and>
    (\<forall>s. s \<noteq> originalText t \<longrightarrow> cache (snd (snd (fill_entry E (k, t) w))) s = cache w s) \<and>
    (\<forall>m. extract_context [(k, t)] m =
       (if english t \<noteq> [] \<and> chinese t \<noteq> []
        then set_property m (english t) (chinese t) else m))"
proof -
  have lines: "\<forall>ls. msgid t = Arr ls \<longrightarrow>
       originalText t = concat (map to_text ls) \<and>
       english t = join [newline] (map to_text ls) \<and>
       (originalText t \<noteq> english t) = (2 \<le> length ls)"
  proof (intro allI impI)
    fix ls
    assume a: "msgid t = Arr ls"
    then have o: "originalText t = concat (map to_text ls)"
      by (simp add: originalText_def join_empty_sep)
    from a have e: "english t = join [newline] (map to_text ls)"
      by (simp add: english_def)
    from o e join_eq_concat_iff [of "map to_text ls" newline]
    show "originalText t = concat (map to_text ls) \<and>
       english t = join [newline] (map to_text ls) \<and>
       (originalText t \<noteq> english t) = (2 \<le> length ls)"
      by simp
  qed
  have one: "\<forall>s. msgid t = Str s \<longrightarrow> originalText t = s \<and> english t = s"
    by (simp add: originalText_def english_def)
  from fill_entry_untranslated [OF assms, of E w] obtain translatedText w2 where
    tr: "translateText E (originalText t) RETRY_LIMIT (emit (Console (Translating k)) w) =
      (translatedText, w2)"
    and fe: "fill_entry E (k, t) w =
      (None, t\<lparr>msgstr := Some (Arr [translatedText])\<rparr>,
       emit (Sleep REQUEST_DELAY) (emit (Console (Result translatedText)) w2))"
    by blast
  from translateText_requests [of E "originalText t" RETRY_LIMIT "emit (Console (Translating k)) w"] tr
  obtain suffix where s: "trace w2 = trace w @ Console (Translating k) # suffix"
    and p: "\<forall>r. Post r \<in> set suffix \<longrightarrow>
      req_q r = originalText t \<and> req_sign r = getBaiduSign E (originalText t) (req_salt r)"
    by auto
  have sent: "\<exists>suffix. trace (snd (snd (fill_entry E (k, t) w))) = trace w @ suffix \<and>
       (\<forall>r. Post r \<in> set suffix \<longrightarrow>
          req_q r = originalText t \<and>
          req_sign r =
            md5_hex E (BAIDU_APP_ID E @ originalText t @ dec (req_salt r) @ BAIDU_SECRET_KEY E))"
  proof (intro exI conjI)
    show "trace (snd (snd (fill_entry E (k, t) w))) =
      trace w @ (Console (Translating k) # suffix @
        [Console (Result translatedText), Sleep REQUEST_DELAY])"
      by (simp add: fe s)
    show "\<forall>r. Post r \<in> set (Console (Translating k) # suffix @
        [Console (Result translatedText), Sleep REQUEST_DELAY]) \<longrightarrow>
          req_q r = originalText t \<and>
          req_sign r =
            md5_hex E (BAIDU_APP_ID E @ originalText t @ dec (req_salt r) @ BAIDU_SECRET_KEY E)"
      using p by (auto simp: getBaiduSign_def)
  qed
  have kept: "\<forall>s. s \<noteq> originalText t \<longrightarrow>
    cache (snd (snd (fill_entry E (k, t) w))) s = cache w s"
  proof (intro allI impI)
    fix s :: jsstring
    assume "s \<noteq> originalText t"
    from translateText_cache_elsewhere [OF this, of E RETRY_LIMIT "emit (Console (Translating k)) w"] tr
    show "cache (snd (snd (fill_entry E (k, t) w))) s = cache w s"
      by (simp add: fe)
  qed
  have ex: "\<forall>m. extract_context [(k, t)] m =
       (if english t \<noteq> [] \<and> chinese t \<noteq> []
        then set_property m (english t) (chinese t) else m)"
    using assms(1) by (simp add: extract_entry_def)
  from lines one tr fe sent kept ex show ?thesis
    by blast
qed

theorem fill_and_extract_keys_witness:
  "originalText two_line_entry = str ''AB'' \<and>
   english two_line_entry = ab_text \<and>
   str ''AB'' \<noteq> ab_text \<and>
   (\<exists>translatedText w2.
      translateText (sample_env xy_service) (str ''AB'') RETRY_LIMIT
        (emit (Console (Translating ab_text)) (fresh Map.empty)) = (translatedText, w2)) \<and>
   cache (snd (snd (fill_entry (sample_env xy_service) (ab_text, two_line_entry) (fresh Map.empty))))
     ab_text = None"
proof -
  have lines: "msgid two_line_entry = Arr [Text (str ''A''), Text (str ''B'')]"
    by (simp add: two_line_entry_def)
  have un: "untranslated two_line_entry = Inr True"
    by (simp add: two_line_entry_def untranslated_def)
  have cat: "concat (map to_text [Text (str ''A''), Text (str ''B'')]) = str ''AB''"
    by (simp add: str_def)
  have nl: "join [newline] (map to_text [Text (str ''A''), Text (str ''B'')]) = ab_text"
    by (simp add: ab_text_def)
  have diff: "ab_text \<noteq> str ''AB''"
    by (simp add: ab_text_def str_def)
  have empty: "cache (fresh Map.empty) ab_text = None"
    by (simp add: fresh_def)
  from fill_and_extract_keys [OF ab_entry_facts(1) un, of "sample_env xy_service" "fresh Map.empty"]
  have inst: "originalText two_line_entry = str ''AB'' \<and> english two_line_entry = ab_text"
    and call: "\<exists>translatedText w2.
      translateText (sample_env xy_service) (originalText two_line_entry) RETRY_LIMIT
        (emit (Console (Translating ab_text)) (fresh Map.empty)) = (translatedText, w2)"
    and kept: "\<forall>s. s \<noteq> originalText two_line_entry \<longrightarrow>
      cache (snd (snd (fill_entry (sample_env xy_service) (ab_text, two_line_entry)
        (fresh Map.empty)))) s = cache (fresh Map.empty) s"
    using lines cat nl by auto
  from inst call kept diff empty show ?thesis
    by auto
qed

text \<open>
  Claim C9 as stated fails: the source identifier of \<open>ab_entry\<close> spans two lines, \<open>A\<close>
  and \<open>B\<close>, and the parser gives it as the one string with the newline inside. The two
  joinings of its lines differ, but the fill workflow does not take the concatenation: it
  calls \<open>translateText\<close> on the string with its newline, the very key that the extraction
  uses.
\<close>

theorem fill_and_extract_keys_counterexample:
  "msgid ab_entry = Str ab_text \<and>
   split newline ab_text = [str ''A'', str ''B''] \<and>
   concat [str ''A'', str ''B''] \<noteq> join [newline] [str ''A'', str ''B''] \<and>
   originalText ab_entry \<noteq> concat [str ''A'', str ''B''] \<and>
   originalText ab_entry = english ab_entry \<and>
   (\<exists>w2. translateText (sample_env xy_service) (english ab_entry) RETRY_LIMIT
      (emit (Console (Translating ab_text)) (fresh Map.empty)) = (Text xy_text, w2) \<and>
    fill_entry (sample_env xy_service) (ab_text, ab_entry) (fresh Map.empty) =
      (None, ab_entry\<lparr>msgstr := Some (Arr [Text xy_text])\<rparr>,
       emit (Sleep REQUEST_DELAY) (emit (Console (Result (Text xy_text))) w2)))"
proof -
  have m: "msgid ab_entry = Str ab_text"
    by (simp add: ab_entry_def)
  have sp: "split newline ab_text = [str ''A'', str ''B'']"
    by (simp add: ab_text_def str_def newline_def)
  have ne: "concat [str ''A'', str ''B''] \<noteq> join [newline] [str ''A'', str ''B'']"
    by (simp add: str_def)
  have no: "ab_text \<noteq> concat [str ''A'', str ''B'']"
    by (simp add: ab_text_def str_def)
  have fe: "fill_entry (sample_env xy_service) (ab_text, ab_entry) (fresh Map.empty) =
      (None, ab_entry\<lparr>msgstr := Some (Arr [Text xy_text])\<rparr>,
       emit (Sleep REQUEST_DELAY) (emit (Console (Result (Text xy_text)))
         (snd (translateText (sample_env xy_service) ab_text RETRY_LIMIT
           (emit (Console (Translating ab_text)) (fresh Map.empty))))))"
    by (simp add: fill_entry_def ab_entry_facts xy_translate Let_def write_back_text)
  have tr: "translateText (sample_env xy_service) ab_text RETRY_LIMIT
      (emit (Console (Translating ab_text)) (fresh Map.empty)) =
    (Text xy_text, snd (translateText (sample_env xy_service) ab_text RETRY_LIMIT
      (emit (Console (Translating ab_text)) (fresh Map.empty))))"
    by (simp add: xy_translate)
  from m sp ne no fe tr show ?thesis
    unfolding ab_entry_facts(3,6) by blast
qed

section \<open>Extraction, entry by entry\<close>

lemma extract_context_append:
  "extract_context (xs @ ys) m = extract_context ys (extract_context xs m)"
  by (induction xs arbitrary: m) simp_all

lemma extract_contexts_flat:
  "extract_contexts po m = extract_context (concat (map snd po)) m"
proof (induction po arbitrary: m)
  case Nil
  show ?case by simp
next
  case (Cons x po)
  obtain c es where x: "x = (c, es)" by (cases x)
  show ?case unfolding x by (simp add: Cons.IH extract_context_append)
qed

lemma extract_entry_origin:
  "extract_entry (k, e) m s = Some t \<Longrightarrow>
   m s = Some t \<or> (s \<noteq> [] \<and> t \<noteq> [] \<and> k \<noteq> [] \<and> english e = s \<and> chinese e = t)"
  by (auto simp: extract_entry_def set_property_def split: if_splits)

lemma extract_context_origin:
  "extract_context es m s = Some t \<Longrightarrow>
   m s = Some t \<or>
   (s \<noteq> [] \<and> t \<noteq> [] \<and> (\<exists>(k, e) \<in> set es. k \<noteq> [] \<and> english e = s \<and> chinese e = t))"
proof (induction es arbitrary: m)
  case Nil
  then show ?case by simp
next
  case (Cons x es)
  obtain k e where x: "x = (k, e)" by (cases x)
  from Cons.prems have "extract_context es (extract_entry (k, e) m) s = Some t"
    by (simp add: x)
  from Cons.IH [OF this] extract_entry_origin [of k e m s t] show ?case
    unfolding x by auto
qed

lemma extract_entry_untouched:
  "k \<noteq> [] \<and> chinese e \<noteq> [] \<longrightarrow> english e \<noteq> s \<Longrightarrow> extract_entry (k, e) m s = m s"
  by (auto simp: extract_entry_def set_property_def)

lemma extract_context_untouched:
  "\<forall>(k', e') \<in> set es. k' \<noteq> [] \<and> chinese e' \<noteq> [] \<longrightarrow> english e' \<noteq> s \<Longrightarrow>
   extract_context es m s = m s"
proof (induction es arbitrary: m)
  case Nil
  show ?case by simp
next
  case (Cons x es)
  obtain k e where x: "x = (k, e)" by (cases x)
  from Cons.prems have here: "k \<noteq> [] \<and> chinese e \<noteq> [] \<longrightarrow> english e \<noteq> s"
    and later: "\<forall>(k', e') \<in> set es. k' \<noteq> [] \<and> chinese e' \<noteq> [] \<longrightarrow> english e' \<noteq> s"
    by (simp_all add: x)
  show ?case
    unfolding x by (simp add: Cons.IH [OF later] extract_entry_untouched [OF here])
qed

lemma extractTranslations_origin:
  "extractTranslations po s = Some t \<Longrightarrow>
   s \<noteq> [] \<and> t \<noteq> [] \<and>
   (\<exists>(k, e) \<in> set (concat (map snd po)). k \<noteq> [] \<and> english e = s \<and> chinese e = t)"
  using extract_context_origin [of "concat (map snd po)" Map.empty s t]
  by (simp add: extractTranslations_def extract_contexts_flat)

text \<open>No assignment creates a property \<^verbatim>\<open>__proto__\<close> on an object that has none.\<close>

lemma extract_context_no_proto:
  "m (str ''__proto__'') = None \<Longrightarrow> extract_context es m (str ''__proto__'') = None"
proof (induction es arbitrary: m)
  case Nil
  then show ?case by simp
next
  case (Cons x es)
  obtain k e where x: "x = (k, e)" by (cases x)
  from Cons.prems have "extract_entry (k, e) m (str ''__proto__'') = None"
    by (simp add: extract_entry_def set_property_def)
  with Cons.IH [of "extract_entry (k, e) m"] show ?case by (simp add: x)
qed

lemma extractTranslations_no_proto: "extractTranslations po (str ''__proto__'') = None"
  using extract_context_no_proto [of Map.empty "concat (map snd po)"]
  by (simp add: extractTranslations_def extract_contexts_flat)

lemma hello_facts:
  "english hello_a = str ''Hello''" "chinese hello_a = str ''A''"
  "english hello_b = str ''Hello''" "chinese hello_b = str ''B''"
  "english hello_untranslated = str ''Hello''" "chinese hello_untranslated = []"
  "str ''Hello'' \<noteq> []" "str ''A'' \<noteq> []" "str ''B'' \<noteq> []" "str ''A'' \<noteq> str ''B''"
  "str ''B'' \<noteq> str ''A''" "str ''Hello'' \<noteq> str ''__proto__''"
  by (simp_all add: hello_a_def hello_b_def hello_untranslated_def english_def chinese_def str_def)

section \<open>The pairs of the extraction output\<close>

text \<open>
  Claim C4, amended. Every pair of the output mapping has a non-empty source and a
  non-empty translation and comes from an entry that is not the header. Conversely, for
  an entry that is not the header, whose source is not the string \<^verbatim>\<open>__proto__\<close>, and
  that no later entry (in the order of iteration, across the contexts) with a non-empty
  translation shares its source with, the output holds the entry's pair if and only if
  its newline-joined source and translation are both non-empty.
\<close>

theorem extractTranslations_pairs:
  assumes "concat (map snd po) = pre @ (k, e) # post" and "k \<noteq> []"
    and "\<forall>(k', e') \<in> set post. k' \<noteq> [] \<and> chinese e' \<noteq> [] \<longrightarrow> english e' \<noteq> english e"
    and "english e \<noteq> str ''__proto__''"
  shows "(extractTranslations po (english e) = Some (chinese e)) =
      (english e \<noteq> [] \<and> chinese e \<noteq> []) \<and>
    (\<forall>s t. extractTranslations po s = Some t \<longrightarrow>
       s \<noteq> [] \<and> t \<noteq> [] \<and>
       (\<exists>(k, e) \<in> set (concat (map snd po)). k \<noteq> [] \<and> english e = s \<and> chinese e = t))"
proof -
  have at_e: "extractTranslations po (english e) =
    extract_context [(k, e)] (extract_context pre Map.empty) (english e)"
  proof -
    have "extractTranslations po (english e) =
      extract_context post (extract_context [(k, e)] (extract_context pre Map.empty)) (english e)"
      using extract_context_append [of pre "[(k, e)] @ post" Map.empty]
        extract_context_append [of "[(k, e)]" post "extract_context pre Map.empty"]
      by (simp add: extractTranslations_def extract_contexts_flat assms(1)
          del: extract_context.simps)
    then show ?thesis
      by (simp only: extract_context_untouched [OF assms(3)])
  qed
  have "(extractTranslations po (english e) = Some (chinese e)) =
      (english e \<noteq> [] \<and> chinese e \<noteq> [])"
  proof (cases "english e \<noteq> [] \<and> chinese e \<noteq> []")
    case True
    with assms(2,4) show ?thesis by (simp add: at_e extract_entry_def set_property_def)
  next
    case False
    have "extractTranslations po (english e) \<noteq> Some (chinese e)"
    proof
      assume "extractTranslations po (english e) = Some (chinese e)"
      from extractTranslations_origin [OF this] False show False by simp
    qed
    with False show ?thesis by simp
  qed
  with extractTranslations_origin show ?thesis by blast
qed

theorem extractTranslations_pairs_witness:
  "extractTranslations two_contexts (str ''Hello'') = Some (str ''B'')"
proof -
  have entries: "concat (map snd two_contexts) =
      [([], blank_header), (str ''Hello'', hello_a)] @ (str ''Hello'', hello_b) # []"
    by (simp add: two_contexts_def)
  have later: "\<forall>(k', e') \<in> set []. k' \<noteq> [] \<and> chinese e' \<noteq> [] \<longrightarrow> english e' \<noteq> english hello_b"
    by simp
  have plain: "english hello_b \<noteq> str ''__proto__''"
    by (simp add: hello_facts)
  from extractTranslations_pairs [OF entries hello_facts(7) later plain] show ?thesis
    by (simp add: hello_facts)
qed

text \<open>
  Claim C4 as stated fails: the catalog \<open>two_contexts\<close> has \<open>Hello\<close> under two contexts;
  the first entry has a non-empty source and a non-empty translation, and the output
  holds the translation of the second instead.
\<close>

theorem extractTranslations_pairs_counterexample:
  "(str ''Hello'', hello_a) \<in> set (concat (map snd two_contexts)) \<and>
   english hello_a \<noteq> [] \<and> chinese hello_a \<noteq> [] \<and>
   extractTranslations two_contexts (english hello_a) \<noteq> Some (chinese hello_a)"
  by (simp add: two_contexts_def extractTranslations_def extract_entry_def set_property_def
      hello_facts)

section \<open>Merging the files of a directory\<close>

lemma assign_absent: "n s = None \<Longrightarrow> assign m n s = m s"
  by (simp add: assign_def)

lemma assign_present:
  "n s = Some t \<Longrightarrow> s \<noteq> str ''__proto__'' \<Longrightarrow> assign m n s = Some t"
  by (simp add: assign_def set_property_def)

lemma process_files_append:
  "process_files extname (xs @ ys) m = process_files extname ys (process_files extname xs m)"
proof (induction xs arbitrary: m)
  case Nil
  show ?case by simp
next
  case (Cons x xs)
  obtain f po where x: "x = (f, po)" by (cases x)
  show ?case unfolding x by (simp add: Cons.IH)
qed

lemma process_files_untouched:
  "\<forall>(file', po') \<in> set files. extname file' = str ''.po'' \<longrightarrow> extractTranslations po' s = None \<Longrightarrow>
   process_files extname files m s = m s"
proof (induction files arbitrary: m)
  case Nil
  show ?case by simp
next
  case (Cons x files)
  obtain f po where x: "x = (f, po)" by (cases x)
  from Cons.prems have here: "extname f = str ''.po'' \<longrightarrow> extractTranslations po s = None"
    and later: "\<forall>(file', po') \<in> set files. extname file' = str ''.po'' \<longrightarrow>
      extractTranslations po' s = None"
    by (simp_all add: x)
  from here show ?case
    unfolding x by (simp add: Cons.IH [OF later] assign_absent)
qed

text \<open>
  Claim C5, amended. When a directory is processed and several of its catalog files
  yield a pair for the same source text, the merged mapping holds the translation of the
  last such file in the order of processing. A file in which the entry has no translation
  yields no pair for it and leaves the earlier value in place.
\<close>

theorem processPoPath_last_wins:
  assumes "files = pre @ (file, po) # post"
    and "extname file = str ''.po''"
    and "extractTranslations po s = Some t"
    and "\<forall>(file', po') \<in> set post. extname file' = str ''.po'' \<longrightarrow>
      extractTranslations po' s = None"
  shows "\<exists>allTranslations.
    processPoPath extname inputPath (Directory files) = Inr allTranslations \<and>
    allTranslations s = Some t"
proof -
  have "process_files extname files Map.empty s =
    process_files extname post
      (process_files extname [(file, po)] (process_files extname pre Map.empty)) s"
    using process_files_append [of extname pre "[(file, po)] @ post" Map.empty]
      process_files_append [of extname "[(file, po)]" post "process_files extname pre Map.empty"]
    by (simp add: assms(1) del: process_files.simps)
  also have "\<dots> = process_files extname [(file, po)] (process_files extname pre Map.empty) s"
    by (rule process_files_untouched [OF assms(4)])
  also have "\<dots> = Some t"
  proof -
    from assms(3) extractTranslations_no_proto [of po] have "s \<noteq> str ''__proto__''"
      by auto
    with assms(2,3) show ?thesis by (simp add: assign_present)
  qed
  finally show ?thesis
    by (simp add: processPoPath_def)
qed

theorem processPoPath_last_wins_witness:
  "\<exists>allTranslations.
     processPoPath last3 (str ''locales'')
       (Directory [(str ''a.po'', catalog_a), (str ''b.po'', catalog_b)]) = Inr allTranslations \<and>
     allTranslations (str ''Hello'') = Some (str ''B'')"
proof -
  have files: "[(str ''a.po'', catalog_a), (str ''b.po'', catalog_b)] =
      [(str ''a.po'', catalog_a)] @ (str ''b.po'', catalog_b) # []"
    by simp
  have ext: "last3 (str ''b.po'') = str ''.po''"
    by (simp add: last3_def str_def)
  have b: "extractTranslations catalog_b (str ''Hello'') = Some (str ''B'')"
    by (simp add: catalog_b_def extractTranslations_def extract_entry_def set_property_def
        hello_facts)
  have later: "\<forall>(file', po') \<in> set []. last3 file' = str ''.po'' \<longrightarrow>
      extractTranslations po' (str ''Hello'') = None"
    by simp
  show ?thesis
    by (rule processPoPath_last_wins [OF files ext b later])
qed

text \<open>
  Claim C5 as stated fails: both files have an entry for \<open>Hello\<close>, the file processed
  last has it untranslated, and the merged mapping holds the translation of the first.
\<close>

theorem processPoPath_last_wins_counterexample:
  "last3 (str ''a.po'') = str ''.po'' \<and> last3 (str ''b.po'') = str ''.po'' \<and>
   (str ''Hello'', hello_a) \<in> set (concat (map snd catalog_a)) \<and>
   (str ''Hello'', hello_untranslated) \<in> set (concat (map snd catalog_untranslated)) \<and>
   english hello_a = english hello_untranslated \<and>
   chinese hello_a = str ''A'' \<and> chinese hello_untranslated = [] \<and>
   processPoPath last3 (str ''locales'')
     (Directory [(str ''a.po'', catalog_a), (str ''b.po'', catalog_untranslated)]) =
     Inr (process_files last3 [(str ''a.po'', catalog_a), (str ''b.po'', catalog_untranslated)]
       Map.empty) \<and>
   process_files last3 [(str ''a.po'', catalog_a), (str ''b.po'', catalog_untranslated)]
     Map.empty (str ''Hello'') = Some (str ''A'')"
proof -
  have ext: "last3 (str ''a.po'') = str ''.po''" "last3 (str ''b.po'') = str ''.po''"
    by (simp_all add: last3_def str_def)
  have a: "extractTranslations catalog_a = [str ''Hello'' \<mapsto> str ''A'']"
    by (simp add: catalog_a_def extractTranslations_def extract_entry_def set_property_def
        hello_facts)
  have u: "extractTranslations catalog_untranslated = Map.empty"
    by (simp add: catalog_untranslated_def extractTranslations_def extract_entry_def hello_facts)
  show ?thesis
    by (simp add: ext a u assign_def set_property_def processPoPath_def hello_facts)
      (simp add: catalog_a_def catalog_untranslated_def)
qed

section \<open>The header entry\<close>

lemma fill_context_header:
  "fill_context E es w = (r, es', w') \<Longrightarrow>
   filter (\<lambda>(k, t). k = []) es' = filter (\<lambda>(k, t). k = []) es \<and>
   fill_context E (filter (\<lambda>(k, t). k \<noteq> []) es) w = (r, filter (\<lambda>(k, t). k \<noteq> []) es', w')"
proof (induction es arbitrary: w r es' w')
  case Nil
  then show ?case by auto
next
  case (Cons x es)
  obtain k t where x: "x = (k, t)" by (cases x)
  obtain r1 t1 w1 where fe: "fill_entry E (k, t) w = (r1, t1, w1)"
    by (cases "fill_entry E (k, t) w")
  show ?case
  proof (cases r1)
    case (Some err)
    with Cons.prems fe have res: "r = Some err" "es' = (k, t1) # es" "w' = w1"
      by (simp_all add: x)
    from fe Some have "k \<noteq> []"
      by (auto simp: fill_entry_header)
    with fe Some res show ?thesis by (simp add: x)
  next
    case None
    obtain r2 es2 w2 where rest: "fill_context E es w1 = (r2, es2, w2)"
      by (cases "fill_context E es w1")
    with Cons.prems fe None have res: "r = r2" "es' = (k, t1) # es2" "w' = w2"
      by (simp_all add: x)
    note ih = Cons.IH [OF rest]
    show ?thesis
    proof (cases "k = []")
      case True
      with fe have "t1 = t" "w1 = w" by (simp_all add: fill_entry_header)
      with True ih res show ?thesis by (simp add: x)
    next
      case False
      with fe None ih res show ?thesis by (simp add: x)
    qed
  qed
qed

lemma fill_contexts_header:
  "fill_contexts E po w = (r, po', w') \<Longrightarrow>
   header_entries po' = header_entries po \<and>
   fill_contexts E (without_header po) w = (r, without_header po', w')"
proof (induction po arbitrary: w r po' w')
  case Nil
  then show ?case by (auto simp: header_entries_def without_header_def)
next
  case (Cons x po)
  obtain c es where x: "x = (c, es)" by (cases x)
  obtain r1 es1 w1 where fc: "fill_context E es w = (r1, es1, w1)"
    by (cases "fill_context E es w")
  note h = fill_context_header [OF fc]
  show ?case
  proof (cases r1)
    case (Some err)
    with Cons.prems fc have res: "r = Some err" "po' = (c, es1) # po" "w' = w1"
      by (simp_all add: x)
    with h Some show ?thesis
      by (simp add: x header_entries_def without_header_def)
  next
    case None
    obtain r2 po2 w2 where rest: "fill_contexts E po w1 = (r2, po2, w2)"
      by (cases "fill_contexts E po w1")
    with Cons.prems fc None have res: "r = r2" "po' = (c, es1) # po2" "w' = w2"
      by (simp_all add: x)
    from Cons.IH [OF rest] h None res show ?thesis
      by (simp add: x header_entries_def without_header_def)
  qed
qed

text \<open>
  Claim C6. The empty string is never a key of the extraction output, and the output is
  the same as for the catalog without its header entries. In the fill workflow the header
  entries come out as they went in, and the run (requests, waits, console lines, cache
  and every other entry) is the same as on the catalog without them.
\<close>

theorem header_skipped:
  "extractTranslations po [] = None \<and>
   extractTranslations (without_header po) = extractTranslations po \<and>
   header_entries (fst (main E po w)) = header_entries po \<and>
   main E (without_header po) w =
     (without_header (fst (main E po w)),
      map_option without_header (fst (snd (main E po w))),
      snd (snd (main E po w)))"
proof -
  have a: "extractTranslations po [] = None"
  proof (cases "extractTranslations po []")
    case None
    then show ?thesis .
  next
    case (Some t)
    from extractTranslations_origin [OF this] show ?thesis by simp
  qed
  have flt: "extract_context (filter (\<lambda>(k, t). k \<noteq> []) es) m = extract_context es m" for es m
  proof (induction es arbitrary: m)
    case Nil
    show ?case by simp
  next
    case (Cons x es)
    obtain k t where x: "x = (k, t)" by (cases x)
    show ?case unfolding x by (simp add: Cons.IH extract_entry_def)
  qed
  have b: "extract_contexts (without_header po) m = extract_contexts po m" for m
  proof (induction po arbitrary: m)
    case Nil
    show ?case by (simp add: without_header_def)
  next
    case (Cons x po)
    obtain c es where x: "x = (c, es)" by (cases x)
    from Cons.IH show ?case unfolding x by (simp add: without_header_def flt)
  qed
  obtain r po' w' where fc: "fill_contexts E po w = (r, po', w')"
    by (cases "fill_contexts E po w")
  from fill_contexts_header [OF fc] fc have
    "header_entries (fst (main E po w)) = header_entries po \<and>
     main E (without_header po) w =
       (without_header (fst (main E po w)),
        map_option without_header (fst (snd (main E po w))),
        snd (snd (main E po w)))"
    by (cases r) (simp_all add: main_def)
  with a b show ?thesis by (simp add: extractTranslations_def)
qed

theorem header_skipped_witness:
  "extractTranslations catalog_ab [] = None \<and>
   header_entries (fst (main (sample_env xy_service) catalog_ab (fresh Map.empty))) =
     [([], [([], blank_header)])]"
proof -
  have headers: "header_entries catalog_ab = [([], [([], blank_header)])]"
    by (simp add: header_entries_def catalog_ab_def ab_entry_facts)
  from header_skipped [of catalog_ab "sample_env xy_service" "fresh Map.empty"] show ?thesis
    by (simp only: headers)
qed

end
